theory Spec2Isabelle
  imports Main "HOL-Library.Word" "HOL-Library.Sublist"
begin

unbundle bit_operations_syntax

section \<open>Bytes, buffers and bounds-checked reads\<close>

text \<open>
  The input of the walker is a read-only byte buffer. A pointer into it is modelled by its
  offset from the start of the buffer (a \<open>nat\<close>, so address arithmetic does not wrap), and
  \<open>data_end\<close> by the offset \<open>end\<close>. Every dereference of the C code is a read that
  is checked against the length of the buffer: a read outside of it is the fault
  \<open>BadRead\<close>, which the C program cannot return and which the theorems below exclude.
\<close>

type_synonym byte = "8 word"
type_synonym u32 = "32 word"
type_synonym u64 = "64 word"

datatype fault = OutOfFuel | BadRead

definition rd_u8 :: "byte list \<Rightarrow> nat \<Rightarrow> byte option" where
  "rd_u8 buf off = (if off < length buf then Some (buf ! off) else None)"

text \<open>Little-endian value of a byte sequence, as a load on the (little-endian) target reads it.\<close>

fun le_nat :: "byte list \<Rightarrow> nat" where
  "le_nat [] = 0"
| "le_nat (b # bs) = unat b + 256 * le_nat bs"

definition rd_u32 :: "byte list \<Rightarrow> nat \<Rightarrow> u32 option" where
  "rd_u32 buf off =
     (if off + 4 \<le> length buf then Some (of_nat (le_nat (take 4 (drop off buf)))) else None)"

definition rd_bytes :: "byte list \<Rightarrow> nat \<Rightarrow> nat \<Rightarrow> byte list option" where
  "rd_bytes buf off n = (if off + n \<le> length buf then Some (take n (drop off buf)) else None)"

text \<open>A C string: the bytes before the first NUL.\<close>

definition cstring :: "byte list \<Rightarrow> byte list" where
  "cstring bs = takeWhile (\<lambda>b. b \<noteq> 0) bs"

section \<open>The tree walker (devicetree-parse.c)\<close>

text \<open>
  The observers are the two callback blocks. Each is a function of its C arguments and of
  the state \<open>'s\<close> the block captures; it returns the new state and the value it leaves in
  \<open>*stop\<close> (which is false whenever a callback is entered). A \<open>NULL\<close> callback is
  \<open>None\<close>. The node callback gets \<open>depth\<close>, the node (its offset), the size from the node
  to the end, and the two counts; the property callback gets \<open>depth\<close>, the name (the C
  string in the 32-byte field), the payload bytes and their size.
\<close>

type_synonym 's node_callback = "u32 \<Rightarrow> nat \<Rightarrow> nat \<Rightarrow> u32 \<Rightarrow> u32 \<Rightarrow> 's \<Rightarrow> 's \<times> bool"
type_synonym 's property_callback = "u32 \<Rightarrow> byte list \<Rightarrow> byte list \<Rightarrow> nat \<Rightarrow> 's \<Rightarrow> 's \<times> bool"

text \<open>
  What a call of \<open>devicetree_iterate_node\<close> leaves behind: its return value \<open>ok\<close>, the
  cursor \<open>*data\<close>, the flag \<open>*stop\<close> and the state of the observers.
\<close>

record 's walk =
  ok :: bool
  data :: nat
  stop :: bool
  obs :: 's

text \<open>
  The body of the property loop up to the callback (lines 46-70): the header must fit, the
  name field must end in NUL, and the cursor advances by the padded size; \<open>None\<close> is
  \<open>return false\<close>, \<open>Some (p', prop, prop_size)\<close> the cursor after the property, the
  offset of its header and its masked size.
\<close>

definition parse_property :: "byte list \<Rightarrow> nat \<Rightarrow> nat \<Rightarrow> fault + (nat \<times> nat \<times> u32) option" where
  "parse_property buf end p =
     (let prop = p; p1 = p + 36 in
      if p1 > end then Inr None
      else case rd_u8 buf (prop + 31) of
        None \<Rightarrow> Inl BadRead
      | Some c \<Rightarrow>
          if c \<noteq> 0 then Inr None
          else case rd_u32 buf (prop + 32) of
            None \<Rightarrow> Inl BadRead
          | Some raw \<Rightarrow>
              let prop_size = raw AND NOT 0x80000000;
                  padded_size = unat ((prop_size + 0x3) AND NOT 0x3);
                  p2 = p1 + padded_size
              in if p2 > end
                 then (if p2 - padded_size + unat prop_size = end
                       then Inr (Some (end, prop, prop_size))
                       else Inr None)
                 else Inr (Some (p2, prop, prop_size)))"

datatype 's props_result = PFail 's | PStop 's | PDone nat 's

text \<open>
  The property loop (lines 45-78), by recursion on the number of properties still to read:
  \<open>PFail\<close> is \<open>return false\<close>, \<open>PStop\<close> is \<open>return true\<close> with \<open>*stop\<close> set, \<open>PDone p\<close>
  leaves the loop with the cursor \<open>p\<close>.
\<close>

primrec iterate_props ::
  "byte list \<Rightarrow> nat \<Rightarrow> 's property_callback option \<Rightarrow> u32 \<Rightarrow> nat \<Rightarrow> nat \<Rightarrow> 's
    \<Rightarrow> fault + 's props_result" where
  "iterate_props buf end pcb depth 0 p s = Inr (PDone p s)"
| "iterate_props buf end pcb depth (Suc n) p s =
     (case parse_property buf end p of
        Inl e \<Rightarrow> Inl e
      | Inr None \<Rightarrow> Inr (PFail s)
      | Inr (Some (p', prop, prop_size)) \<Rightarrow>
          (case pcb of
             None \<Rightarrow> iterate_props buf end pcb depth n p' s
           | Some cb \<Rightarrow>
               (case rd_bytes buf prop 32 of
                  None \<Rightarrow> Inl BadRead
                | Some name \<Rightarrow>
                    (case rd_bytes buf (prop + 36) (unat prop_size) of
                       None \<Rightarrow> Inl BadRead
                     | Some val \<Rightarrow>
                         (case cb (depth + 1) (cstring name) val (unat prop_size) s of
                            (s', stp) \<Rightarrow>
                              if stp then Inr (PStop s')
                              else iterate_props buf end pcb depth n p' s')))))"

text \<open>
  The loop over the children (lines 82-91), by recursion on the number of children still to
  visit; \<open>child\<close> is the recursive call on one child.
\<close>

primrec iterate_children ::
  "(nat \<Rightarrow> 's \<Rightarrow> fault + 's walk) \<Rightarrow> nat \<Rightarrow> nat \<Rightarrow> 's \<Rightarrow> fault + 's walk" where
  "iterate_children child 0 d s = Inr \<lparr>ok = True, data = d, stop = False, obs = s\<rparr>"
| "iterate_children child (Suc n) d s =
     (case child d s of
        Inl e \<Rightarrow> Inl e
      | Inr w \<Rightarrow>
          if \<not> ok w then Inr (w\<lparr>ok := False\<rparr>)
          else if stop w then Inr (w\<lparr>ok := True\<rparr>)
          else iterate_children child n (data w) (obs w))"

text \<open>
  \<open>devicetree_iterate_node\<close> (lines 20-93). The C function is recursive in the depth of the
  tree; the model recurses on a budget of nested calls and is \<open>Inl OutOfFuel\<close> when the
  budget is used up. \<open>devicetree_iterate\<close> below starts it with a budget that is
  proved to be enough for every buffer.
\<close>

primrec devicetree_iterate_node ::
  "nat \<Rightarrow> byte list \<Rightarrow> nat \<Rightarrow> 's node_callback option \<Rightarrow> 's property_callback option
    \<Rightarrow> u32 \<Rightarrow> nat \<Rightarrow> 's \<Rightarrow> fault + 's walk" where
  "devicetree_iterate_node 0 buf end ncb pcb = (\<lambda>depth d s. Inl OutOfFuel)"
| "devicetree_iterate_node (Suc fuel) buf end ncb pcb = (\<lambda>depth d s.
     let node = d; p = d + 8 in
     if p > end then Inr \<lparr>ok = False, data = d, stop = False, obs = s\<rparr>
     else case rd_u32 buf node of
       None \<Rightarrow> Inl BadRead
     | Some n_properties \<Rightarrow>
       (case rd_u32 buf (node + 4) of
          None \<Rightarrow> Inl BadRead
        | Some n_children \<Rightarrow>
          (case (case ncb of
                   None \<Rightarrow> (s, False)
                 | Some cb \<Rightarrow> cb depth node (end - p + 8) n_properties n_children s) of
             (s1, stp) \<Rightarrow>
               if stp then Inr \<lparr>ok = True, data = d, stop = True, obs = s1\<rparr>
               else (case iterate_props buf end pcb depth (unat n_properties) p s1 of
                       Inl e \<Rightarrow> Inl e
                     | Inr (PFail s2) \<Rightarrow> Inr \<lparr>ok = False, data = d, stop = False, obs = s2\<rparr>
                     | Inr (PStop s2) \<Rightarrow> Inr \<lparr>ok = True, data = d, stop = True, obs = s2\<rparr>
                     | Inr (PDone p' s2) \<Rightarrow>
                         iterate_children
                           (devicetree_iterate_node fuel buf end ncb pcb (depth + 1))
                           (unat n_children) p' s2))))"

text \<open>
  \<open>devicetree_iterate\<close> (lines 95-102): \<open>*data\<close> starts at offset 0, \<open>end\<close> is the
  argument \<open>size\<close> (here \<open>sz\<close>). A node takes at least 8 bytes, so no tree inside
  \<open>sz\<close> bytes nests deeper than \<open>sz div 8\<close>.
\<close>

definition devicetree_iterate ::
  "byte list \<Rightarrow> nat \<Rightarrow> 's node_callback option \<Rightarrow> 's property_callback option \<Rightarrow> 's
    \<Rightarrow> fault + 's walk" where
  "devicetree_iterate buf sz ncb pcb s =
     devicetree_iterate_node (Suc (sz div 8)) buf sz ncb pcb 0 0 s"

text \<open>The block of \<open>devicetree_node_scan_properties\<close> (lines 107-113).\<close>

definition do_not_scan_children :: "'s node_callback" where
  "do_not_scan_children depth node sz n_properties n_children s = (s, depth \<noteq> 0)"

text \<open>
  \<open>devicetree_node_scan_properties\<close> (lines 104-115): the cursor is a local copy, so only
  the return value and the observer's state come back.
\<close>

definition devicetree_node_scan_properties ::
  "byte list \<Rightarrow> nat \<Rightarrow> 's property_callback option \<Rightarrow> 's \<Rightarrow> fault + bool \<times> 's" where
  "devicetree_node_scan_properties buf sz pcb s =
     (case devicetree_iterate buf sz (Some do_not_scan_children) pcb s of
        Inl e \<Rightarrow> Inl e
      | Inr w \<Rightarrow> Inr (ok w, obs w))"

section \<open>The binary format, as the specification describes it\<close>

text \<open>
  The repository holds no encoder. The claims about "the encoding of a structurally valid
  tree" are stated against the format of the specification (sections 3 and 6): a node
  header of two little-endian 32-bit counts, then the node's properties in order, then the
  complete subtrees of its children in order; a property is a 32-byte name field (the
  name, NUL-terminated, zero-filled), a 32-bit size whose top bit is a flag, the payload,
  and zero padding to the next multiple of 4.
\<close>

record property =
  pname :: "byte list"
  pflag :: bool
  pdata :: "byte list"

datatype tree = Node "property list" "tree list"

definition enc_u32 :: "nat \<Rightarrow> byte list" where
  "enc_u32 n = [of_nat n, of_nat (n div 256), of_nat (n div 65536), of_nat (n div 16777216)]"

definition pad4 :: "nat \<Rightarrow> nat" where
  "pad4 n = (n + 3) div 4 * 4"

definition size_field :: "property \<Rightarrow> nat" where
  "size_field pr = length (pdata pr) + (if pflag pr then 2 ^ 31 else 0)"

definition name_field :: "byte list \<Rightarrow> byte list" where
  "name_field name = name @ replicate (32 - length name) 0"

definition padding :: "nat \<Rightarrow> byte list" where
  "padding n = replicate (pad4 n - n) 0"

definition enc_property :: "property \<Rightarrow> byte list" where
  "enc_property pr =
     name_field (pname pr) @ enc_u32 (size_field pr) @ pdata pr @ padding (length (pdata pr))"

definition enc_properties :: "property list \<Rightarrow> byte list" where
  "enc_properties ps = concat (map enc_property ps)"

fun enc_tree :: "tree \<Rightarrow> byte list" where
  "enc_tree (Node ps cs) =
     enc_u32 (length ps) @ enc_u32 (length cs) @ enc_properties ps @ concat (map enc_tree cs)"

definition enc_forest :: "tree list \<Rightarrow> byte list" where
  "enc_forest cs = concat (map enc_tree cs)"

definition valid_property :: "property \<Rightarrow> bool" where
  "valid_property pr =
     (length (pname pr) \<le> 31 \<and> 0 \<notin> set (pname pr) \<and> length (pdata pr) < 2 ^ 31)"

fun valid_tree :: "tree \<Rightarrow> bool" where
  "valid_tree (Node ps cs) =
     (length ps < 2 ^ 32 \<and> length cs < 2 ^ 32
      \<and> (\<forall>pr \<in> set ps. valid_property pr) \<and> (\<forall>c \<in> set cs. valid_tree c))"

text \<open>
  The number of padding bytes that end the encoding of a tree: those of the last property
  of the buffer, when the buffer ends with a property (and not with the header of a node
  that has no property).
\<close>

definition props_trailing_pad :: "property list \<Rightarrow> nat" where
  "props_trailing_pad ps =
     (if ps = [] then 0 else pad4 (length (pdata (last ps))) - length (pdata (last ps)))"

fun trailing_pad :: "tree \<Rightarrow> nat"
  and forest_trailing_pad :: "tree list \<Rightarrow> nat" where
  "trailing_pad (Node ps cs) =
     (if cs = [] then props_trailing_pad ps else forest_trailing_pad cs)"
| "forest_trailing_pad [] = 0"
| "forest_trailing_pad [c] = trailing_pad c"
| "forest_trailing_pad (c # c' # cs) = forest_trailing_pad (c' # cs)"

section \<open>Observers that record what they are called with\<close>

datatype event =
  NodeEvent u32 nat nat u32 u32
| PropertyEvent u32 "byte list" "byte list" nat

text \<open>The calls a full traversal of a tree encoded at offset \<open>off\<close> makes, in order.\<close>

definition property_event :: "u32 \<Rightarrow> property \<Rightarrow> event" where
  "property_event depth pr = PropertyEvent depth (pname pr) (pdata pr) (length (pdata pr))"

fun tree_events :: "nat \<Rightarrow> u32 \<Rightarrow> nat \<Rightarrow> tree \<Rightarrow> event list"
  and forest_events :: "nat \<Rightarrow> u32 \<Rightarrow> nat \<Rightarrow> tree list \<Rightarrow> event list" where
  "tree_events end depth off (Node ps cs) =
     NodeEvent depth off (end - off) (of_nat (length ps)) (of_nat (length cs))
       # map (property_event (depth + 1)) ps
       @ forest_events end (depth + 1) (off + 8 + length (enc_properties ps)) cs"
| "forest_events end depth off [] = []"
| "forest_events end depth off (c # cs) =
     tree_events end depth off c @ forest_events end depth (off + length (enc_tree c)) cs"

text \<open>
  The calls of the property observer for a list of properties encoded at offset \<open>off\<close>,
  in order and up to the first request to stop.
\<close>

fun visit_props ::
  "'s property_callback option \<Rightarrow> u32 \<Rightarrow> property list \<Rightarrow> nat \<Rightarrow> 's \<Rightarrow> 's props_result" where
  "visit_props pcb depth [] off s = PDone off s"
| "visit_props pcb depth (pr # ps) off s =
     (case pcb of
        None \<Rightarrow> visit_props pcb depth ps (off + length (enc_property pr)) s
      | Some cb \<Rightarrow>
          (case cb (depth + 1) (pname pr) (pdata pr) (length (pdata pr)) s of
             (s', stp) \<Rightarrow>
               if stp then PStop s'
               else visit_props pcb depth ps (off + length (enc_property pr)) s'))"

fun props_state :: "'s props_result \<Rightarrow> 's" where
  "props_state (PFail s) = s"
| "props_state (PStop s) = s"
| "props_state (PDone p s) = s"

text \<open>What an observer pair does with one call when it is handed the event.\<close>

fun apply_event ::
  "'s node_callback option \<Rightarrow> 's property_callback option \<Rightarrow> 's \<Rightarrow> event \<Rightarrow> 's" where
  "apply_event ncb pcb s (NodeEvent depth node sz np nc) =
     (case ncb of None \<Rightarrow> s | Some cb \<Rightarrow> fst (cb depth node sz np nc s))"
| "apply_event ncb pcb s (PropertyEvent depth name val sz) =
     (case pcb of None \<Rightarrow> s | Some cb \<Rightarrow> fst (cb depth name val sz s))"

text \<open>Observers that never request a stop.\<close>

definition never_stops_node :: "'s node_callback option \<Rightarrow> bool" where
  "never_stops_node ncb =
     (\<forall>cb depth node sz np nc s. ncb = Some cb \<longrightarrow> \<not> snd (cb depth node sz np nc s))"

definition never_stops_property :: "'s property_callback option \<Rightarrow> bool" where
  "never_stops_property pcb =
     (\<forall>cb depth name val sz s. pcb = Some cb \<longrightarrow> \<not> snd (cb depth name val sz s))"

text \<open>
  Observers that only record their calls: the state is the list of events so far.
\<close>

definition log_node :: "event list node_callback" where
  "log_node depth node sz np nc log = (log @ [NodeEvent depth node sz np nc], False)"

definition log_property :: "event list property_callback" where
  "log_property depth name val sz log = (log @ [PropertyEvent depth name val sz], False)"

text \<open>
  Arbitrary observers, wrapped so that each call is recorded together with the value it
  left in \<open>*stop\<close>. A \<open>NULL\<close> callback is recorded as a call that does nothing.
\<close>

definition trace_node :: "'s node_callback option \<Rightarrow> ('s \<times> (event \<times> bool) list) node_callback" where
  "trace_node ncb depth node sz np nc st =
     (case st of (s, log) \<Rightarrow>
        (case (case ncb of None \<Rightarrow> (s, False) | Some cb \<Rightarrow> cb depth node sz np nc s) of
           (s', stp) \<Rightarrow> ((s', log @ [(NodeEvent depth node sz np nc, stp)]), stp)))"

definition trace_property ::
  "'s property_callback option \<Rightarrow> ('s \<times> (event \<times> bool) list) property_callback" where
  "trace_property pcb depth name val sz st =
     (case st of (s, log) \<Rightarrow>
        (case (case pcb of None \<Rightarrow> (s, False) | Some cb \<Rightarrow> cb depth name val sz s) of
           (s', stp) \<Rightarrow> ((s', log @ [(PropertyEvent depth name val sz, stp)]), stp)))"

text \<open>The offset of the node that the last node event of a trace was called with.\<close>

fun last_node_offset :: "(event \<times> bool) list \<Rightarrow> nat option" where
  "last_node_offset [] = None"
| "last_node_offset ((NodeEvent depth node sz np nc, stp) # evs) =
     (case last_node_offset evs of None \<Rightarrow> Some node | Some n \<Rightarrow> Some n)"
| "last_node_offset ((PropertyEvent depth name val sz, stp) # evs) = last_node_offset evs"

section \<open>The value classifier (main.c)\<close>

text \<open>
  The sources hold two versions of \<open>main.c\<close>: the one stored with
  \<open>src/devicetree-parse.h\<close>, and \<open>src/unnamed/part_001\<close>. Their functions are modelled
  side by side; a definition of the second carries the suffix \<open>_001\<close>, and a definition
  without a suffix that the second version also has is the same in both.

  A property name is the C string the walker hands to the callback, a value is the list
  of its \<open>size\<close> bytes. \<open>isprint\<close> is the one of the C locale.
\<close>

definition bytes_of :: "string \<Rightarrow> byte list" where
  "bytes_of cs = map of_char cs"

definition isprint :: "byte \<Rightarrow> bool" where
  "isprint c = (0x20 \<le> c \<and> c \<le> 0x7e)"

definition read_uint :: "byte list \<Rightarrow> u64" where
  "read_uint bs =
     (if length bs = 1 \<or> length bs = 2 \<or> length bs = 4 \<or> length bs = 8
      then of_nat (le_nat bs) else - 1)"

definition all_printable_ascii :: "byte list \<Rightarrow> bool" where
  "all_printable_ascii bs = list_all isprint bs"

record measure_string_info =
  printable :: nat
  first_null :: nat
  after_null :: nat
  null_count :: nat
  printable_run_count :: nat

text \<open>
  The loop of \<open>measure_string\<close>: \<open>sz\<close> is the size of the value, \<open>i\<close> the index of the
  byte at the head of the list, \<open>run\<close> is \<open>current_printable_run\<close>.
\<close>

fun measure_loop ::
  "nat \<Rightarrow> nat \<Rightarrow> byte list \<Rightarrow> measure_string_info \<Rightarrow> nat \<Rightarrow> measure_string_info \<times> nat" where
  "measure_loop sz i [] info run = (info, run)"
| "measure_loop sz i (byte # bs) info run =
     (let info1 = (if byte = 0 then info\<lparr>null_count := null_count info + 1\<rparr> else info);
          info2 = (if isprint byte then info1\<lparr>printable := printable info1 + 1\<rparr>
                   else if run \<ge> 8
                     then info1\<lparr>printable_run_count := printable_run_count info1 + run\<rparr>
                     else info1);
          run2 = (if isprint byte then run + 1 else 0);
          info3 = (if first_null info2 \<noteq> sz \<and> byte \<noteq> 0
                   then info2\<lparr>after_null := after_null info2 + 1\<rparr> else info2);
          info4 = (if byte = 0 \<and> first_null info3 = sz
                   then info3\<lparr>first_null := i\<rparr> else info3)
      in measure_loop sz (i + 1) bs info4 run2)"

definition measure_string :: "byte list \<Rightarrow> measure_string_info" where
  "measure_string bs =
     (case measure_loop (length bs) 0 bs
             \<lparr>printable = 0, first_null = length bs, after_null = 0, null_count = 0,
              printable_run_count = 0\<rparr> 0 of
        (info, run) \<Rightarrow>
          if run \<ge> 8 then info\<lparr>printable_run_count := printable_run_count info + run\<rparr>
          else info)"

text \<open>A 64-bit load at a byte offset of the value (always inside it where it is used).\<close>

definition u64_at :: "byte list \<Rightarrow> nat \<Rightarrow> u64" where
  "u64_at bs off = of_nat (le_nat (take 8 (drop off bs)))"

definition u32_at :: "byte list \<Rightarrow> nat \<Rightarrow> u32" where
  "u32_at bs off = of_nat (le_nat (take 4 (drop off bs)))"

text \<open>\<open>check_phys_ranges\<close>: every \<open>struct phys_range\<close> (16 bytes: \<open>phys\<close>, \<open>size\<close>) is checked.\<close>

definition phys_range_ok :: "u64 \<Rightarrow> u64 \<Rightarrow> bool" where
  "phys_range_ok phys sz =
     (\<not> phys > 0x980000000 \<and> \<not> (phys AND 0xfff) \<noteq> 0 \<and> \<not> sz > 0x80000000)"

definition check_phys_ranges :: "byte list \<Rightarrow> bool" where
  "check_phys_ranges bs =
     list_all (\<lambda>i. phys_range_ok (u64_at bs (16 * i)) (u64_at bs (16 * i + 8)))
       [0 ..< length bs div 16]"

text \<open>
  \<open>check_physaddr_length_pairs\<close> of part_001, called with \<open>count = size / 8\<close> words and
  stepping through them two at a time.
\<close>

definition physaddr_length_ok :: "u64 \<Rightarrow> u64 \<Rightarrow> bool" where
  "physaddr_length_ok physaddr len =
     (\<not> physaddr > 0x980000000 \<and> \<not> (physaddr AND 0x3fff) \<noteq> 0 \<and> \<not> len > 0x80000000)"

definition check_physaddr_length_pairs :: "byte list \<Rightarrow> nat \<Rightarrow> bool" where
  "check_physaddr_length_pairs bs count =
     list_all (\<lambda>j. physaddr_length_ok (u64_at bs (8 * (2 * j))) (u64_at bs (8 * (2 * j + 1))))
       [0 ..< (count + 1) div 2]"

datatype display_type =
  DISP_HEX_DUMP
| DISP_HEX_INT
| DISP_DEC_INT
| DISP_STRING
| DISP_HEX_STRING
| DISP_FUNCTION_PROP
| DISP_PHYS_RANGES
| DISP_SEGMENT_RANGES

text \<open>\<open>strstr(name, needle) != NULL\<close>.\<close>

primrec strstr :: "byte list \<Rightarrow> byte list \<Rightarrow> bool" where
  "strstr [] needle = (needle = [])"
| "strstr (c # cs) needle = (take (length needle) (c # cs) = needle \<or> strstr cs needle)"

text \<open>\<open>name[0]\<close>: the first byte of the C string, the terminating NUL when it is empty.\<close>

definition first_char :: "byte list \<Rightarrow> byte" where
  "first_char name = (case name of [] \<Rightarrow> 0 | c # cs \<Rightarrow> c)"

text \<open>
  \<open>compute_display_type\<close>. The three comparisons with a \<open>double\<close> are written in whole
  numbers: \<open>x >= 0.75 * size\<close> as \<open>4 * x \<ge> 3 * size\<close>, which is exact, and \<open>x >= 0.90 * size\<close>
  and \<open>x >= 0.6 * size\<close> as \<open>10 * x \<ge> 9 * size\<close> and \<open>10 * x \<ge> 6 * size\<close>, which is what
  the rounded products decide for every size a property can have (below \<open>2 ^ 31\<close>).
  \<open>sizeof(struct segment_range)\<close> is 32 and \<open>sizeof(struct phys_range)\<close> is 16.
\<close>

definition compute_display_type :: "byte list \<Rightarrow> byte list \<Rightarrow> display_type" where
  "compute_display_type name bs =
     (let sz = length bs in
      if sz = 1 \<or> sz = 2 then DISP_HEX_INT
      else if first_char name = 0x23 then DISP_DEC_INT
      else if sz > 0 \<and> sz mod 32 = 0 \<and> name = bytes_of ''segment-ranges''
        then DISP_SEGMENT_RANGES
      else let string = measure_string bs in
        if printable string = first_null string \<and> after_null string = 0
           \<and> ((sz \<noteq> 4 \<and> sz \<noteq> 8) \<or> printable string \<ge> sz - 1)
          then DISP_STRING
        else if take 9 name = bytes_of ''function-'' \<and> sz \<ge> 8 \<and> sz mod 4 = 0
                \<and> all_printable_ascii (take 4 (drop 4 bs))
          then DISP_FUNCTION_PROP
        else if 4 * printable string \<ge> 3 * sz then DISP_HEX_STRING
        else if sz > 0 \<and> sz mod 16 = 0
                \<and> (strstr name (bytes_of ''reg'') \<or> check_phys_ranges bs)
          then DISP_PHYS_RANGES
        else if printable string \<ge> 2 \<and> sz \<ge> 24
                \<and> 10 * (printable string + null_count string) \<ge> 9 * sz
          then DISP_HEX_STRING
        else if printable_run_count string > 0 \<and> sz \<ge> 24
                \<and> 10 * (printable_run_count string + null_count string) \<ge> 6 * sz
          then DISP_HEX_STRING
        else if sz = 4 \<or> sz = 8 then DISP_HEX_INT
        else DISP_HEX_DUMP)"

text \<open>
  The version of part_001: no segment ranges, and the address ranges (there
  \<open>DISP_PHYSADDR_LEN\<close>, here the same constructor \<open>DISP_PHYS_RANGES\<close>) are checked by
  \<open>check_physaddr_length_pairs\<close>.
\<close>

definition compute_display_type_001 :: "byte list \<Rightarrow> byte list \<Rightarrow> display_type" where
  "compute_display_type_001 name bs =
     (let sz = length bs in
      if sz = 1 \<or> sz = 2 then DISP_HEX_INT
      else if first_char name = 0x23 then DISP_DEC_INT
      else let string = measure_string bs in
        if printable string = first_null string \<and> after_null string = 0
           \<and> ((sz \<noteq> 4 \<and> sz \<noteq> 8) \<or> printable string \<ge> sz - 1)
          then DISP_STRING
        else if take 9 name = bytes_of ''function-'' \<and> sz \<ge> 8 \<and> sz mod 4 = 0
                \<and> all_printable_ascii (take 4 (drop 4 bs))
          then DISP_FUNCTION_PROP
        else if 4 * printable string \<ge> 3 * sz then DISP_HEX_STRING
        else if sz > 0 \<and> sz mod 16 = 0
                \<and> (strstr name (bytes_of ''reg'') \<or> check_physaddr_length_pairs bs (sz div 8))
          then DISP_PHYS_RANGES
        else if printable string \<ge> 2 \<and> sz \<ge> 24
                \<and> 10 * (printable string + null_count string) \<ge> 9 * sz
          then DISP_HEX_STRING
        else if printable_run_count string > 0 \<and> sz \<ge> 24
                \<and> 10 * (printable_run_count string + null_count string) \<ge> 6 * sz
          then DISP_HEX_STRING
        else if sz = 4 \<or> sz = 8 then DISP_HEX_INT
        else DISP_HEX_DUMP)"

section \<open>The output sink and the formatters (main.c)\<close>

text \<open>
  \<open>struct strbuf\<close>. The array \<open>str\<close> is modelled by the C string it holds (the characters
  before its terminating NUL); \<open>pos\<close>, \<open>cap\<close> and \<open>max\<close> are as in the code, and a
  \<open>size_t\<close> subtraction wraps around at \<open>2 ^ 64\<close>.
\<close>

record strbuf =
  str :: string
  pos :: nat
  cap :: nat
  max' :: nat

definition size_sub :: "nat \<Rightarrow> nat \<Rightarrow> nat" where
  "size_sub a b = (a + 2 ^ 64 - b) mod 2 ^ 64"

definition strbuf_alloc :: "nat \<Rightarrow> strbuf" where
  "strbuf_alloc mx =
     (let c0 = 0x4000; c = (if c0 > mx then mx else c0)
      in \<lparr>str = [], pos = 0, cap = c, max' = mx\<rparr>)"

text \<open>
  \<open>vsnprintf(str + at, n, ...)\<close> where the formatted text is \<open>text\<close>: with \<open>n = 0\<close> nothing
  is written; otherwise at most \<open>n - 1\<close> characters and a NUL are written at \<open>at\<close>. The
  string held by the array changes only if \<open>at\<close> is not behind its end. The return value
  is the length of \<open>text\<close>.
\<close>

definition vsnprintf :: "string \<Rightarrow> nat \<Rightarrow> nat \<Rightarrow> string \<Rightarrow> string" where
  "vsnprintf s at n text = (if n = 0 \<or> at > length s then s else take at s @ take (n - 1) text)"

text \<open>\<open>strbuf_vprintf_no_grow\<close>: the return value, \<open>*req_cap\<close> and the new buffer.\<close>

definition strbuf_vprintf_no_grow :: "strbuf \<Rightarrow> string \<Rightarrow> bool \<times> nat \<times> strbuf" where
  "strbuf_vprintf_no_grow sb text =
     (let sz0 = size_sub (cap sb) (pos sb);
          sz = (if pos sb \<ge> size_sub (cap sb) 1 \<or> cap sb = 0 then 0 else sz0);
          sb1 = sb\<lparr>str := vsnprintf (str sb) (pos sb) sz text\<rparr>;
          ret = length text;
          new_pos = pos sb + ret
      in if new_pos > size_sub (cap sb) 1 then (False, new_pos + 1, sb1)
         else (True, 0, sb1\<lparr>pos := new_pos\<rparr>))"

text \<open>
  \<open>strbuf_printf\<close> with the formatted text \<open>text\<close>. The second attempt, after the array has
  grown to \<open>req_cap\<close>, is asserted to succeed, and the function returns true after it.
\<close>

definition strbuf_printf :: "strbuf \<Rightarrow> string \<Rightarrow> bool \<times> strbuf" where
  "strbuf_printf sb text =
     (case strbuf_vprintf_no_grow sb text of
        (ok1, req_cap, sb1) \<Rightarrow>
          if \<not> ok1 then
            if req_cap > max' sb1 then (False, sb1\<lparr>pos := req_cap - 1\<rparr>)
            else (case strbuf_vprintf_no_grow (sb1\<lparr>cap := req_cap\<rparr>) text of
                    (ok2, req_cap2, sb2) \<Rightarrow> (True, sb2))
          else (True, sb1))"

text \<open>
  The loop shared by the formatters, \<open>for (; ok && ...; ...) ok = strbuf_printf(sb, ...)\<close>
  followed by \<open>return ok\<close>: the list holds the text of each round.
\<close>

fun print_loop :: "strbuf \<Rightarrow> string list \<Rightarrow> bool \<times> strbuf" where
  "print_loop sb [] = (True, sb)"
| "print_loop sb (w # ws) =
     (case strbuf_printf sb w of (ok1, sb1) \<Rightarrow> if ok1 then print_loop sb1 ws else (False, sb1))"

text \<open>The conversions of \<open>printf\<close>: \<open>%x\<close>/\<open>%llx\<close>, \<open>%02x\<close> of a byte, \<open>%lld\<close>, \<open>%c\<close>.\<close>

definition hex_digit :: "nat \<Rightarrow> char" where
  "hex_digit n = ''0123456789abcdef'' ! (n mod 16)"

fun hex_of_nat :: "nat \<Rightarrow> string" where
  "hex_of_nat n = (if n < 16 then [hex_digit n] else hex_of_nat (n div 16) @ [hex_digit (n mod 16)])"

declare hex_of_nat.simps [simp del]

definition hex2 :: "byte \<Rightarrow> string" where
  "hex2 c = [hex_digit (unat c div 16), hex_digit (unat c mod 16)]"

fun dec_of_nat :: "nat \<Rightarrow> string" where
  "dec_of_nat n = (if n < 10 then [hex_digit n] else dec_of_nat (n div 10) @ [hex_digit (n mod 10)])"

declare dec_of_nat.simps [simp del]

definition dec_of_int :: "int \<Rightarrow> string" where
  "dec_of_int i = (if i < 0 then CHR ''-'' # dec_of_nat (nat (- i)) else dec_of_nat (nat i))"

definition char_of_byte :: "byte \<Rightarrow> char" where
  "char_of_byte c = char_of (unat c)"

text \<open>\<open>print_property_hex_dump\<close>: \<open>print_end\<close> is \<open>end\<close>, so the last separator is empty.\<close>

definition print_property_hex_dump :: "strbuf \<Rightarrow> byte list \<Rightarrow> bool \<times> strbuf" where
  "print_property_hex_dump sb bs =
     print_loop sb
       (map (\<lambda>i. hex2 (bs ! i) @ (if i = length bs - 1 then [] else '' '')) [0 ..< length bs])"

definition print_property_hex_int :: "strbuf \<Rightarrow> byte list \<Rightarrow> bool \<times> strbuf" where
  "print_property_hex_int sb bs =
     (let v = read_uint bs in
      if v = 0 then strbuf_printf sb ''0''
      else strbuf_printf sb (''0x'' @ hex_of_nat (unat v)))"

definition print_property_dec_int :: "strbuf \<Rightarrow> byte list \<Rightarrow> bool \<times> strbuf" where
  "print_property_dec_int sb bs = strbuf_printf sb (dec_of_int (sint (read_uint bs)))"

text \<open>
  \<open>print_property_hex_string\<close> of the version stored with the header: the body of the loop
  for one byte (two calls of \<open>strbuf_printf\<close> for a backslash or a double quote, the
  result of the first overwritten by the second), the loop, and the function.
\<close>

definition hex_string_char :: "strbuf \<Rightarrow> byte \<Rightarrow> bool \<times> strbuf" where
  "hex_string_char sb c =
     (case (if c = 0x5c \<or> c = 0x22 then strbuf_printf sb [CHR 0x5c] else (True, sb)) of
        (ok1, sb1) \<Rightarrow>
          if c = 0 then strbuf_printf sb1 [CHR 0x5c, CHR ''0'']
          else if isprint c then strbuf_printf sb1 [char_of_byte c]
          else strbuf_printf sb1 ([CHR 0x5c, CHR ''x''] @ hex2 c))"

fun hex_string_loop :: "strbuf \<Rightarrow> byte list \<Rightarrow> bool \<times> strbuf" where
  "hex_string_loop sb [] = (True, sb)"
| "hex_string_loop sb (c # cs) =
     (case hex_string_char sb c of
        (ok1, sb1) \<Rightarrow> if ok1 then hex_string_loop sb1 cs else (False, sb1))"

definition print_property_hex_string :: "strbuf \<Rightarrow> byte list \<Rightarrow> bool \<times> strbuf" where
  "print_property_hex_string sb bs =
     (case strbuf_printf sb [CHR 0x22] of
        (ok0, sb0) \<Rightarrow>
          (case (if ok0 then hex_string_loop sb0 bs else (False, sb0)) of
             (ok1, sb1) \<Rightarrow> if ok1 then strbuf_printf sb1 [CHR 0x22] else (False, sb1)))"

text \<open>
  \<open>print_property_hex_string\<close> of part_001: \<open>isprint\<close> is tested first, then the double
  quote, then NUL.
\<close>

definition hex_string_char_001 :: "strbuf \<Rightarrow> byte \<Rightarrow> bool \<times> strbuf" where
  "hex_string_char_001 sb c =
     (if isprint c then strbuf_printf sb [char_of_byte c]
      else if c = 0x22 then strbuf_printf sb [CHR 0x5c, CHR 0x22]
      else if c = 0 then strbuf_printf sb [CHR 0x5c, CHR ''0'']
      else strbuf_printf sb ([CHR 0x5c, CHR ''x''] @ hex2 c))"

fun hex_string_loop_001 :: "strbuf \<Rightarrow> byte list \<Rightarrow> bool \<times> strbuf" where
  "hex_string_loop_001 sb [] = (True, sb)"
| "hex_string_loop_001 sb (c # cs) =
     (case hex_string_char_001 sb c of
        (ok1, sb1) \<Rightarrow> if ok1 then hex_string_loop_001 sb1 cs else (False, sb1))"

definition print_property_hex_string_001 :: "strbuf \<Rightarrow> byte list \<Rightarrow> bool \<times> strbuf" where
  "print_property_hex_string_001 sb bs =
     (case strbuf_printf sb [CHR 0x22] of
        (ok0, sb0) \<Rightarrow>
          (case (if ok0 then hex_string_loop_001 sb0 bs else (False, sb0)) of
             (ok1, sb1) \<Rightarrow> if ok1 then strbuf_printf sb1 [CHR 0x22] else (False, sb1)))"

text \<open>\<open>strnlen(data, size)\<close> is the length of \<open>cstring\<close>; \<open>print_property_string\<close> prints that prefix.\<close>

definition print_property_string :: "strbuf \<Rightarrow> byte list \<Rightarrow> bool \<times> strbuf" where
  "print_property_string sb bs = print_property_hex_string sb (take (length (cstring bs)) bs)"

definition print_property_function :: "strbuf \<Rightarrow> byte list \<Rightarrow> bool \<times> strbuf" where
  "print_property_function sb bs = print_property_hex_string sb bs"

definition print_property_string_001 :: "strbuf \<Rightarrow> byte list \<Rightarrow> bool \<times> strbuf" where
  "print_property_string_001 sb bs =
     print_property_hex_string_001 sb (take (length (cstring bs)) bs)"

definition print_property_function_001 :: "strbuf \<Rightarrow> byte list \<Rightarrow> bool \<times> strbuf" where
  "print_property_function_001 sb bs = print_property_hex_string_001 sb bs"

definition print_property_phys_ranges :: "strbuf \<Rightarrow> byte list \<Rightarrow> bool \<times> strbuf" where
  "print_property_phys_ranges sb bs =
     (let count = length bs div 16 in
      print_loop sb
        (map (\<lambda>i. ''0x'' @ hex_of_nat (unat (u64_at bs (16 * i))) @ '','' 
                    @ hex_of_nat (unat (u64_at bs (16 * i + 8)))
                    @ (if i = count - 1 then [] else ''; ''))
           [0 ..< count]))"

definition print_property_segment_ranges :: "strbuf \<Rightarrow> byte list \<Rightarrow> bool \<times> strbuf" where
  "print_property_segment_ranges sb bs =
     (let count = length bs div 32 in
      print_loop sb
        (map (\<lambda>i. ''{ phys=0x'' @ hex_of_nat (unat (u64_at bs (32 * i)))
                    @ '', virt=0x'' @ hex_of_nat (unat (u64_at bs (32 * i + 8)))
                    @ '', remap=0x'' @ hex_of_nat (unat (u64_at bs (32 * i + 16)))
                    @ '', size=0x'' @ hex_of_nat (unat (u32_at bs (32 * i + 24)))
                    @ '', flags=0x'' @ hex_of_nat (unat (u32_at bs (32 * i + 28)))
                    @ '' }'' @ (if i = count - 1 then [] else ''; ''))
           [0 ..< count]))"

definition print_property :: "strbuf \<Rightarrow> byte list \<Rightarrow> byte list \<Rightarrow> bool \<times> strbuf" where
  "print_property sb name bs =
     (case compute_display_type name bs of
        DISP_HEX_INT \<Rightarrow> print_property_hex_int sb bs
      | DISP_DEC_INT \<Rightarrow> print_property_dec_int sb bs
      | DISP_STRING \<Rightarrow> print_property_string sb bs
      | DISP_HEX_STRING \<Rightarrow> print_property_hex_string sb bs
      | DISP_FUNCTION_PROP \<Rightarrow> print_property_function sb bs
      | DISP_PHYS_RANGES \<Rightarrow> print_property_phys_ranges sb bs
      | DISP_SEGMENT_RANGES \<Rightarrow> print_property_segment_ranges sb bs
      | DISP_HEX_DUMP \<Rightarrow> print_property_hex_dump sb bs)"

text \<open>
  The rendering the specification gives for the quoted kinds (section 4.3): one byte, and
  a byte sequence between double quotes.
\<close>

definition escape_byte :: "byte \<Rightarrow> string" where
  "escape_byte c =
     (if c = 0x5c then [CHR 0x5c, CHR 0x5c]
      else if c = 0x22 then [CHR 0x5c, CHR 0x22]
      else if c = 0 then [CHR 0x5c, CHR ''0'']
      else if isprint c then [char_of_byte c]
      else [CHR 0x5c, CHR ''x''] @ hex2 c)"

definition quoted :: "byte list \<Rightarrow> string" where
  "quoted bs = [CHR 0x22] @ concat (map escape_byte bs) @ [CHR 0x22]"

text \<open>What the version of part_001 sends for one byte, and for a byte sequence.\<close>

definition escape_byte_001 :: "byte \<Rightarrow> string" where
  "escape_byte_001 c =
     (if isprint c then [char_of_byte c]
      else if c = 0 then [CHR 0x5c, CHR ''0'']
      else [CHR 0x5c, CHR ''x''] @ hex2 c)"

definition quoted_001 :: "byte list \<Rightarrow> string" where
  "quoted_001 bs = [CHR 0x22] @ concat (map escape_byte_001 bs) @ [CHR 0x22]"

text \<open>
  What the proofs keep track of for a buffer that has been sent the text \<open>full\<close> since it
  was empty: while the text fits under \<open>max\<close>, the buffer holds all of it and \<open>pos\<close> is its
  length; once it does not, \<open>pos\<close> is beyond the capacity and the buffer holds a prefix.
\<close>

definition sb_holds :: "strbuf \<Rightarrow> string \<Rightarrow> bool" where
  "sb_holds sb full =
     (1 \<le> cap sb \<and> cap sb \<le> max' sb \<and> max' sb < 2 ^ 64
      \<and> (if length full < max' sb
          then pos sb = length full \<and> pos sb < cap sb \<and> str sb = full
          else max' sb \<le> pos sb \<and> prefix (str sb) full))"

text \<open>A formatter \<open>F\<close> that sends the text \<open>T\<close> and reports whether all of it fitted.\<close>

definition writes :: "(strbuf \<Rightarrow> bool \<times> strbuf) \<Rightarrow> string \<Rightarrow> bool" where
  "writes F T =
     (\<forall>sb full. sb_holds sb full \<longrightarrow>
        sb_holds (snd (F sb)) (full @ T)
        \<and> (length full < max' sb \<longrightarrow> fst (F sb) = (length (full @ T) < max' sb))
        \<and> max' (snd (F sb)) = max' sb)"

text \<open>\<open>SIZE_MAX\<close>, the maximum of the verbose mode (\<open>strbuf_alloc(&sb, -1)\<close>).\<close>

definition SIZE_MAX :: nat where
  "SIZE_MAX = 2 ^ 64 - 1"

lemma le_nat_bound: "le_nat bs < 256 ^ length bs"
proof (induction bs)
  case Nil
  show ?case by simp
next
  case (Cons b bs)
  have "unat b < 256" using unsigned_less [of b] by simp
  with Cons show ?case by simp
qed

section \<open>Reading a property (claim C3)\<close>

lemma not_top_bit: "(NOT 0x80000000 :: u32) = mask 31"
  by (simp add: mask_eq_exp_minus_1)

lemma not3: "(NOT 0x3 :: u32) = NOT (mask 2)"
  by (simp add: mask_eq_exp_minus_1)

lemma masked_size: "unat ((raw::u32) AND NOT 0x80000000) = unat raw mod 2 ^ 31"
proof -
  have "raw AND mask 31 = take_bit 31 raw" by (simp only: take_bit_eq_mask)
  moreover have "unat (take_bit 31 raw) = take_bit 31 (unat raw)" by (rule unsigned_take_bit_eq)
  ultimately show ?thesis unfolding not_top_bit by (simp only: take_bit_eq_mod)
qed

lemma suc_suc_diff: "2 \<le> n \<Longrightarrow> Suc (Suc (n - 2)) = n"
  by arith

lemma anm: "(y::u32) AND NOT (mask 2) = push_bit 2 (drop_bit 2 y)"
  by (rule bit_eqI) (auto simp add: bit_simps suc_suc_diff not_less)

lemma unat_anm: "unat ((y::u32) AND NOT (mask 2)) = unat y div 4 * 4"
proof -
  have lt: "unat y < 2 ^ 32" using unsigned_less [of y] by simp
  then have tb: "take_bit 32 (unat y) = unat y" by (simp only: take_bit_nat_eq_self)
  have "unat (push_bit 2 (drop_bit 2 y)) = take_bit 32 (push_bit 2 (drop_bit 2 (unat y)))"
    by (simp add: unsigned_push_bit_eq unsigned_drop_bit_eq tb)
  also have "\<dots> = (unat y div 4 * 4) mod 2 ^ 32"
    by (simp add: take_bit_eq_mod push_bit_eq_mult drop_bit_eq_div)
  also have "\<dots> = unat y div 4 * 4"
  proof -
    from lt have "unat y div 4 * 4 < 2 ^ 32" by simp
    then show ?thesis by simp
  qed
  finally show ?thesis by (simp add: anm)
qed

lemma padded_size_eq: 
  assumes "unat (x::u32) < 2 ^ 31" 
  shows "unat ((x + 0x3) AND NOT 0x3) = pad4 (unat x)"
proof -
  have "unat (x + 3) = unat x + 3"
    using assms by (simp add: unat_word_ariths)
  then show ?thesis
    unfolding not3 by (simp add: unat_anm pad4_def)
qed

lemma masked_size_lt: "unat ((raw::u32) AND NOT 0x80000000) < 2 ^ 31"
  by (simp only: masked_size) simp

lemma padded_masked:
  "unat (((raw::u32) AND NOT 0x80000000) + 0x3 AND NOT 0x3) = pad4 (unat raw mod 2 ^ 31)"
  using padded_size_eq [OF masked_size_lt, of raw] by (simp only: masked_size)

lemma pad4_ge: "n \<le> pad4 n"
  unfolding pad4_def by arith

lemma unat_of_nat_le_nat4:
  "length bs = 4 \<Longrightarrow> unat (of_nat (le_nat bs) :: u32) = le_nat bs"
proof -
  assume "length bs = 4"
  then have "le_nat bs < 2 ^ 32" using le_nat_bound [of bs] by simp
  then show ?thesis by (simp add: unat_of_nat take_bit_nat_eq_self)
qed


lemma parse_property_eq:
  assumes fit: "p + 36 \<le> end" and len: "end \<le> length buf"
  shows "parse_property buf end p =
     (let n = le_nat (take 4 (drop (p + 32) buf)) mod 2 ^ 31 in
      if buf ! (p + 31) \<noteq> 0 then Inr None
      else if end < p + 36 + pad4 n
        then (if p + 36 + n = end then Inr (Some (end, p, of_nat n)) else Inr None)
        else Inr (Some (p + 36 + pad4 n, p, of_nat n)))"
proof -
  define raw :: u32 where "raw = of_nat (le_nat (take 4 (drop (p + 32) buf)))"
  define w where "w = raw AND NOT 0x80000000"
  define n where "n = le_nat (take 4 (drop (p + 32) buf)) mod 2 ^ 31"
  from fit len have l4: "length (take 4 (drop (p + 32) buf)) = 4" by simp
  have raw: "unat raw = le_nat (take 4 (drop (p + 32) buf))"
    unfolding raw_def by (rule unat_of_nat_le_nat4 [OF l4])
  have wn: "unat w = n"
    unfolding w_def n_def by (simp only: masked_size raw)
  have pw: "unat (w + 0x3 AND NOT 0x3) = pad4 n"
    unfolding w_def n_def by (simp only: padded_masked raw)
  have "of_nat (unat w) = w" by simp
  then have w: "w = of_nat n" by (simp only: wn)
  have r8: "rd_u8 buf (p + 31) = Some (buf ! (p + 31))"
    using fit len by (simp add: rd_u8_def)
  have r32: "rd_u32 buf (p + 32) = Some raw"
    using fit len by (simp add: rd_u32_def raw_def)
  have "parse_property buf end p =
     (if buf ! (p + 31) \<noteq> 0 then Inr None
      else if end < p + 36 + unat (w + 0x3 AND NOT 0x3)
        then (if p + 36 + unat (w + 0x3 AND NOT 0x3) - unat (w + 0x3 AND NOT 0x3) + unat w = end
              then Inr (Some (end, p, w)) else Inr None)
        else Inr (Some (p + 36 + unat (w + 0x3 AND NOT 0x3), p, w)))"
    unfolding parse_property_def Let_def r8 r32 w_def using fit by simp
  then have "parse_property buf end p =
     (if buf ! (p + 31) \<noteq> 0 then Inr None
      else if end < p + 36 + pad4 n
        then (if p + 36 + pad4 n - pad4 n + n = end
              then Inr (Some (end, p, w)) else Inr None)
        else Inr (Some (p + 36 + pad4 n, p, w)))"
    by (simp only: pw wn)
  then show ?thesis
    unfolding n_def [symmetric] Let_def w by simp
qed

lemma unat_of_nat_masked: "unat (of_nat (k mod 2 ^ 31) :: u32) = k mod 2 ^ 31"
proof -
  have "k mod 2 ^ 31 < (2 ^ 31 :: nat)" by simp
  then have "k mod 2 ^ 31 < (2 ^ 32 :: nat)" by (rule less_trans) simp
  then show ?thesis by (simp add: unat_of_nat take_bit_nat_eq_self)
qed

text \<open>
  Claim C3. Inside the property loop the walker returns false exactly when the 36-byte
  property header does not fit before \<open>end\<close>, or the last byte of the 32-byte name field is
  not NUL, or the cursor advanced by the payload size (the size field with bit 31 masked
  off, i.e. modulo \<open>2 ^ 31\<close>) rounded up to a multiple of 4 passes \<open>end\<close> while the unpadded
  end of the payload is not exactly \<open>end\<close>. No read leaves the buffer.
\<close>

theorem parse_property_fails_iff:
  assumes "end \<le> length buf"
  shows "(\<forall>e. parse_property buf end p \<noteq> Inl e)
    \<and> (parse_property buf end p = Inr None \<longleftrightarrow>
         end < p + 36
         \<or> buf ! (p + 31) \<noteq> 0
         \<or> (end < p + 36 + pad4 (le_nat (take 4 (drop (p + 32) buf)) mod 2 ^ 31)
            \<and> p + 36 + le_nat (take 4 (drop (p + 32) buf)) mod 2 ^ 31 \<noteq> end))"
proof (cases "end < p + 36")
  case True
  then show ?thesis by (simp add: parse_property_def)
next
  case False
  then have fit: "p + 36 \<le> end" by simp
  show ?thesis
    unfolding parse_property_eq [OF fit assms] Let_def by auto
qed


theorem parse_property_fails_iff_witness:
  "parse_property (replicate 32 0 @ [4, 0, 0, 0, 1, 2, 3]) 39 0 = Inr None
   \<and> parse_property (replicate 32 0 @ [5, 0, 0, 0x80, 1, 2, 3, 4, 5]) 41 0 \<noteq> Inr None"
  using parse_property_fails_iff [of 39 "replicate 32 0 @ [4, 0, 0, 0, 1, 2, 3]" 0]
    parse_property_fails_iff [of 41 "replicate 32 0 @ [5, 0, 0, 0x80, 1, 2, 3, 4, 5]" 0]
  by (simp add: pad4_def nth_append)

section \<open>The order of the classifier's rules (claims C6 and C7)\<close>



lemma list_all_upt: "list_all P [0 ..< n] \<longleftrightarrow> (\<forall>i < n. P i)"
  by (auto simp add: list_all_iff)

text \<open>
  Claim C7. For a value whose size is a positive multiple of 16 and that none of the earlier
  rules (name \<open>#\<close>, segment ranges, string, function property, three quarters printable)
  matched, the classifier answers \<open>DISP_PHYS_RANGES\<close> exactly when the name contains
  \<open>reg\<close> or every 16-byte record has an address of at most \<open>0x980000000\<close> with no bit of
  the page mask set and a size of at most \<open>0x80000000\<close>. The page mask is \<open>0xfff\<close> in the
  version stored with the header and \<open>0x3fff\<close> in part_001.
\<close>

theorem address_range_rule:
  assumes sz: "0 < length bs" "length bs mod 16 = 0"
    and r2: "first_char name \<noteq> 0x23"
    and r3: "\<not> (length bs mod 32 = 0 \<and> name = bytes_of ''segment-ranges'')"
    and r4: "\<not> (printable (measure_string bs) = first_null (measure_string bs)
               \<and> after_null (measure_string bs) = 0)"
    and r5: "\<not> (take 9 name = bytes_of ''function-''
               \<and> all_printable_ascii (take 4 (drop 4 bs)))"
    and r6: "\<not> 4 * printable (measure_string bs) \<ge> 3 * length bs"
  shows "(compute_display_type name bs = DISP_PHYS_RANGES \<longleftrightarrow>
           strstr name (bytes_of ''reg'')
           \<or> (\<forall>i < length bs div 16.
                 u64_at bs (16 * i) \<le> 0x980000000
                 \<and> u64_at bs (16 * i) AND 0xfff = 0
                 \<and> u64_at bs (16 * i + 8) \<le> 0x80000000))
       \<and> (compute_display_type_001 name bs = DISP_PHYS_RANGES \<longleftrightarrow>
           strstr name (bytes_of ''reg'')
           \<or> (\<forall>i < length bs div 16.
                 u64_at bs (16 * i) \<le> 0x980000000
                 \<and> u64_at bs (16 * i) AND 0x3fff = 0
                 \<and> u64_at bs (16 * i + 8) \<le> 0x80000000))"
proof -
  from sz have n12: "length bs \<noteq> 1" "length bs \<noteq> 2" "length bs \<noteq> 4" "length bs \<noteq> 8"
    by auto
  from sz obtain k where k: "length bs = 16 * k" by (auto simp: mod_eq_0_iff_dvd)
  have half: "Suc (length bs div 8) div 2 = length bs div 16"
    unfolding k by simp
  have a: "check_phys_ranges bs \<longleftrightarrow>
      (\<forall>i < length bs div 16.
                 u64_at bs (16 * i) \<le> 0x980000000
                 \<and> u64_at bs (16 * i) AND 0xfff = 0
                 \<and> u64_at bs (16 * i + 8) \<le> 0x80000000)"
    by (simp add: check_phys_ranges_def list_all_upt phys_range_ok_def not_less)
  have b: "check_physaddr_length_pairs bs (length bs div 8) \<longleftrightarrow>
      (\<forall>i < length bs div 16.
                 u64_at bs (16 * i) \<le> 0x980000000
                 \<and> u64_at bs (16 * i) AND 0x3fff = 0
                 \<and> u64_at bs (16 * i + 8) \<le> 0x80000000)"
    by (simp add: check_physaddr_length_pairs_def list_all_upt physaddr_length_ok_def
        not_less half add.commute)
  have c3: "(0 < length bs \<and> length bs mod 32 = 0 \<and> name = bytes_of ''segment-ranges'') = False"
    using r3 by simp
  have c4: "(printable (measure_string bs) = first_null (measure_string bs)
               \<and> after_null (measure_string bs) = 0
               \<and> ((length bs \<noteq> 4 \<and> length bs \<noteq> 8)
                    \<or> printable (measure_string bs) \<ge> length bs - 1)) = False"
    using r4 by simp
  have c5: "(take 9 name = bytes_of ''function-'' \<and> length bs \<ge> 8 \<and> length bs mod 4 = 0
               \<and> all_printable_ascii (take 4 (drop 4 bs))) = False"
    using r5 by simp
  have c6: "(3 * length bs \<le> 4 * printable (measure_string bs)) = False"
    using r6 by simp
  have c1: "(length bs = 1 \<or> length bs = 2) = False" "(length bs = 4 \<or> length bs = 8) = False"
    using n12 by simp_all
  have c2: "(first_char name = 0x23) = False"
    using r2 by simp
  have c7: "(0 < length bs \<and> length bs mod 16 = 0 \<and> X) = X" for X
    using sz by simp
  have h: "compute_display_type name bs =
     (if strstr name (bytes_of ''reg'') \<or> check_phys_ranges bs then DISP_PHYS_RANGES
      else if printable (measure_string bs) \<ge> 2 \<and> length bs \<ge> 24
                \<and> 10 * (printable (measure_string bs) + null_count (measure_string bs))
                     \<ge> 9 * length bs
          then DISP_HEX_STRING
        else if printable_run_count (measure_string bs) > 0 \<and> length bs \<ge> 24
                \<and> 10 * (printable_run_count (measure_string bs) + null_count (measure_string bs))
                     \<ge> 6 * length bs
          then DISP_HEX_STRING
        else DISP_HEX_DUMP)"
    unfolding compute_display_type_def Let_def c1 c2 c3 c4 c5 c6 c7 if_False ..
  have h1: "compute_display_type_001 name bs =
     (if strstr name (bytes_of ''reg'') \<or> check_physaddr_length_pairs bs (length bs div 8)
      then DISP_PHYS_RANGES
      else if printable (measure_string bs) \<ge> 2 \<and> length bs \<ge> 24
                \<and> 10 * (printable (measure_string bs) + null_count (measure_string bs))
                     \<ge> 9 * length bs
          then DISP_HEX_STRING
        else if printable_run_count (measure_string bs) > 0 \<and> length bs \<ge> 24
                \<and> 10 * (printable_run_count (measure_string bs) + null_count (measure_string bs))
                     \<ge> 6 * length bs
          then DISP_HEX_STRING
        else DISP_HEX_DUMP)"
    unfolding compute_display_type_001_def Let_def c1 c2 c4 c5 c6 c7 if_False ..
  show ?thesis
    unfolding a [symmetric] b [symmetric] h h1 by simp
qed


lemma measure_string_example:
  "measure_string [0, 0x10, 0, 0, 0, 0, 0, 0, 1, 0, 0, 0, 0, 0, 0, 0] =
     \<lparr>printable = 0, first_null = 0, after_null = 2, null_count = 14, printable_run_count = 0\<rparr>"
  by code_simp

theorem address_range_rule_witness:
  "compute_display_type (bytes_of ''foo'') [0, 0x10, 0, 0, 0, 0, 0, 0, 1, 0, 0, 0, 0, 0, 0, 0]
     = DISP_PHYS_RANGES
   \<and> compute_display_type_001 (bytes_of ''foo'') [0, 0x10, 0, 0, 0, 0, 0, 0, 1, 0, 0, 0, 0, 0, 0, 0]
     \<noteq> DISP_PHYS_RANGES"
proof -
  let ?bs = "[0, 0x10, 0, 0, 0, 0, 0, 0, 1, 0, 0, 0, 0, 0, 0, 0] :: byte list"
  let ?name = "bytes_of ''foo''"
  have sz: "0 < length ?bs" "length ?bs mod 16 = 0" by simp_all
  have r2: "first_char ?name \<noteq> 0x23" by (simp add: first_char_def bytes_of_def)
  have r3: "\<not> (length ?bs mod 32 = 0 \<and> ?name = bytes_of ''segment-ranges'')" by simp
  have r4: "\<not> (printable (measure_string ?bs) = first_null (measure_string ?bs)
               \<and> after_null (measure_string ?bs) = 0)"
    by (simp add: measure_string_example)
  have r5: "\<not> (take 9 ?name = bytes_of ''function-''
               \<and> all_printable_ascii (take 4 (drop 4 ?bs)))"
    by (simp add: bytes_of_def)
  have r6: "\<not> 4 * printable (measure_string ?bs) \<ge> 3 * length ?bs"
    by (simp add: measure_string_example)
  have reg: "\<not> strstr ?name (bytes_of ''reg'')" by (simp add: bytes_of_def)
  have a: "u64_at ?bs 0 = 0x1000" "u64_at ?bs 8 = 1" by (simp_all add: u64_at_def)
  show ?thesis
    using address_range_rule [OF sz r2 r3 r4 r5 r6] reg by (simp add: a)
qed

section \<open>The sink (claims C8 and C9)\<close>

lemma size_sub_eq: 
  assumes "b \<le> a" "a < 2 ^ 64" 
  shows "size_sub a b = a - b"
proof -
  have e: "a + 2 ^ 64 - b = (a - b) + 2 ^ 64" using assms(1) by (rule Nat.add_diff_assoc2 [symmetric])
  have l: "a - b < 2 ^ 64" using assms(2) by (rule less_imp_diff_less)
  show ?thesis
    unfolding size_sub_def e by (simp only: mod_add_self2 mod_less [OF l])
qed

lemma sb_holds_alloc: "1 \<le> mx \<Longrightarrow> mx < 2 ^ 64 \<Longrightarrow> sb_holds (strbuf_alloc mx) []"
  by (simp add: sb_holds_def strbuf_alloc_def Let_def)

lemma sb_holds_prefix: "sb_holds sb full \<Longrightarrow> prefix (str sb) full"
  by (auto simp add: sb_holds_def split: if_splits)

lemma sb_holds_complete: "sb_holds sb full \<Longrightarrow> length full < max' sb \<Longrightarrow> str sb = full"
  by (simp add: sb_holds_def)

lemma sb_holds_mono:
  "sb_holds sb full \<Longrightarrow> \<not> length full < max' sb \<Longrightarrow> sb_holds sb (full @ rest)"
  by (auto simp add: sb_holds_def prefix_def)

lemma no_grow_eq:
  assumes "1 \<le> cap sb" "cap sb < 2 ^ 64"
  shows "strbuf_vprintf_no_grow sb text =
     (if pos sb + length text > cap sb - 1
      then (False, pos sb + length text + 1,
            sb\<lparr>str := vsnprintf (str sb) (pos sb)
                     (if pos sb \<ge> cap sb - 1 then 0 else cap sb - pos sb) text\<rparr>)
      else (True, 0,
            sb\<lparr>str := vsnprintf (str sb) (pos sb)
                     (if pos sb \<ge> cap sb - 1 then 0 else cap sb - pos sb) text,
               pos := pos sb + length text\<rparr>))"
proof -
  have s1: "size_sub (cap sb) 1 = cap sb - 1"
    using assms by (simp add: size_sub_eq)
  have s2: "size_sub (cap sb) (pos sb) = cap sb - pos sb" if "\<not> pos sb \<ge> cap sb - 1"
    using assms that by (simp add: size_sub_eq)
  have c0: "(cap sb = 0) = False" using assms by simp
  show ?thesis
    unfolding strbuf_vprintf_no_grow_def Let_def s1 c0
    by (simp add: s2)
qed

lemma strbuf_printf_full:
  assumes "sb_holds sb full" "\<not> length full < max' sb"
  shows "strbuf_printf sb text = (False, sb\<lparr>pos := pos sb + length text\<rparr>)"
proof -
  from assms have c: "1 \<le> cap sb" "cap sb \<le> max' sb" "max' sb < 2 ^ 64" "max' sb \<le> pos sb"
    by (simp_all add: sb_holds_def)
  then have c2: "cap sb < 2 ^ 64" by simp
  show ?thesis
    unfolding strbuf_printf_def no_grow_eq [OF c(1) c2]
    using c by (simp add: vsnprintf_def)
qed

lemma strbuf_printf_overflow:
  assumes h: "sb_holds sb full" and lf: "length full < max' sb"
    and ge: "\<not> length (full @ text) < max' sb"
  shows "strbuf_printf sb text =
     (False, sb\<lparr>str := vsnprintf (str sb) (pos sb)
                     (if pos sb \<ge> cap sb - 1 then 0 else cap sb - pos sb) text,
                 pos := pos sb + length text\<rparr>)"
proof -
  from h lf have c: "1 \<le> cap sb" "cap sb \<le> max' sb" "max' sb < 2 ^ 64"
     "pos sb = length full" "pos sb < cap sb" "str sb = full"
    by (simp_all add: sb_holds_def)
  then have c2: "cap sb < 2 ^ 64" by simp
  show ?thesis
    unfolding strbuf_printf_def no_grow_eq [OF c(1) c2]
    using c ge by simp
qed

lemma strbuf_printf_fits_nogrow:
  assumes h: "sb_holds sb full" and lt: "length (full @ text) < max' sb"
    and fit: "\<not> pos sb + length text > cap sb - 1"
  shows "strbuf_printf sb text =
     (True, sb\<lparr>str := full @ text, pos := length (full @ text)\<rparr>)"
proof -
  from lt have lf: "length full < max' sb" by simp
  from h lf have c: "1 \<le> cap sb" "cap sb \<le> max' sb" "max' sb < 2 ^ 64"
     "pos sb = length full" "pos sb < cap sb" "str sb = full"
    by (simp_all add: sb_holds_def)
  then have c2: "cap sb < 2 ^ 64" by simp
  have "length text = 0" if "cap sb - 1 \<le> pos sb"
    using that fit by arith
  then have v: "vsnprintf (str sb) (pos sb)
                     (if pos sb \<ge> cap sb - 1 then 0 else cap sb - pos sb) text = full @ text"
    using c fit by (auto simp add: vsnprintf_def)
  show ?thesis
    unfolding strbuf_printf_def no_grow_eq [OF c(1) c2] v
    using c fit by simp
qed

lemma strbuf_printf_fits_grow:
  assumes h: "sb_holds sb full" and lt: "length (full @ text) < max' sb"
    and nofit: "pos sb + length text > cap sb - 1"
  shows "strbuf_printf sb text =
     (True, sb\<lparr>str := full @ text, cap := length (full @ text) + 1, pos := length (full @ text)\<rparr>)"
proof -
  from lt have lf: "length full < max' sb" by simp
  from h lf have c: "1 \<le> cap sb" "cap sb \<le> max' sb" "max' sb < 2 ^ 64"
     "pos sb = length full" "pos sb < cap sb" "str sb = full"
    by (simp_all add: sb_holds_def)
  then have c2: "cap sb < 2 ^ 64" by simp
  from nofit c have tne: "text \<noteq> []" by auto
  define sb1 where "sb1 = sb\<lparr>str := vsnprintf (str sb) (pos sb)
                     (if pos sb \<ge> cap sb - 1 then 0 else cap sb - pos sb) text,
                      cap := pos sb + length text + 1\<rparr>"
  have d1: "1 \<le> cap sb1" and d2: "cap sb1 < 2 ^ 64"
    using c lt by (simp_all add: sb1_def)
  have pre: "prefix full (str sb1)" "pos sb1 = length full" "cap sb1 = length full + length text + 1"
     "max' sb1 = max' sb"
    using c by (auto simp add: sb1_def vsnprintf_def)
  then have v: "vsnprintf (str sb1) (pos sb1)
                     (if pos sb1 \<ge> cap sb1 - 1 then 0 else cap sb1 - pos sb1) text = full @ text"
    using tne by (auto simp add: vsnprintf_def prefix_def)
  have first: "strbuf_vprintf_no_grow sb text = (False, pos sb + length text + 1,
     sb\<lparr>str := vsnprintf (str sb) (pos sb)
                     (if pos sb \<ge> cap sb - 1 then 0 else cap sb - pos sb) text\<rparr>)"
    unfolding no_grow_eq [OF c(1) c2] using nofit by simp
  have second: "strbuf_vprintf_no_grow sb1 text =
      (True, 0, sb1\<lparr>str := full @ text, pos := length full + length text\<rparr>)"
    unfolding no_grow_eq [OF d1 d2] v using pre by simp
  have "strbuf_printf sb text = (True, sb1\<lparr>str := full @ text, pos := length full + length text\<rparr>)"
    unfolding strbuf_printf_def first using lt c second by (simp add: sb1_def)
  then show ?thesis
    using c by (simp add: sb1_def)
qed

lemma printf_holds:
  assumes h: "sb_holds sb full"
  shows "sb_holds (snd (strbuf_printf sb text)) (full @ text) \<and>
       fst (strbuf_printf sb text) = (length (full @ text) < max' sb) \<and>
       max' (snd (strbuf_printf sb text)) = max' sb"
proof -
  from h have c: "1 \<le> cap sb" "cap sb \<le> max' sb" "max' sb < 2 ^ 64"
    by (simp_all add: sb_holds_def)
  show ?thesis
  proof (cases "length full < max' sb")
    case False
    have r: "strbuf_printf sb text = (False, sb\<lparr>pos := pos sb + length text\<rparr>)"
      by (rule strbuf_printf_full [OF h False])
    have m: "sb_holds sb (full @ text)"
      by (rule sb_holds_mono [OF h False])
    from False have nlt: "\<not> length (full @ text) < max' sb" by simp
    from m nlt have "max' sb \<le> pos sb" "prefix (str sb) (full @ text)"
      unfolding sb_holds_def by (simp_all only: if_False)
    then have "sb_holds (sb\<lparr>pos := pos sb + length text\<rparr>) (full @ text)"
      unfolding sb_holds_def using c nlt by simp
    then show ?thesis
      unfolding r using nlt by simp
  next
    case lf: True
    with h have d: "pos sb = length full" "pos sb < cap sb" "str sb = full"
      by (simp_all add: sb_holds_def)
    show ?thesis
    proof (cases "length (full @ text) < max' sb")
      case False
      show ?thesis
        using c d False lf
        by (auto simp add: strbuf_printf_overflow [OF h lf False] sb_holds_def vsnprintf_def
            take_is_prefix)
    next
      case lt: True
      show ?thesis
      proof (cases "pos sb + length text > cap sb - 1")
        case True
        show ?thesis
          using c d lt apply (simp add: strbuf_printf_fits_grow [OF h lt True] sb_holds_def) done
      next
        case False
        show ?thesis
          using c d lt False by (simp add: strbuf_printf_fits_nogrow [OF h lt False] sb_holds_def)
      qed
    qed
  qed
qed


lemma writesD:
  assumes "writes F T" "sb_holds sb full"
  shows "sb_holds (snd (F sb)) (full @ T)"
    and "length full < max' sb \<Longrightarrow> fst (F sb) = (length (full @ T) < max' sb)"
    and "max' (snd (F sb)) = max' sb"
  using assms unfolding writes_def by blast+

lemma writes_printf: "writes (\<lambda>sb. strbuf_printf sb text) text"
  unfolding writes_def using printf_holds by blast

lemma writes_nothing: "writes (\<lambda>sb. (True, sb)) []"
  unfolding writes_def by simp

text \<open>Two formatters one after the other, the second only if the first reported success.\<close>

lemma writes_then:
  assumes F: "writes F T" and G: "writes G U"
  shows "writes (\<lambda>sb. case F sb of (ok1, sb1) \<Rightarrow> if ok1 then G sb1 else (False, sb1)) (T @ U)"
  unfolding writes_def
proof (intro allI impI)
  fix sb full
  assume h: "sb_holds sb full"
  note f = writesD [OF F h]
  show "sb_holds (snd (case F sb of (ok1, sb1) \<Rightarrow> if ok1 then G sb1 else (False, sb1))) (full @ T @ U)
      \<and> (length full < max' sb \<longrightarrow>
          fst (case F sb of (ok1, sb1) \<Rightarrow> if ok1 then G sb1 else (False, sb1))
          = (length (full @ T @ U) < max' sb))
      \<and> max' (snd (case F sb of (ok1, sb1) \<Rightarrow> if ok1 then G sb1 else (False, sb1))) = max' sb"
  proof (cases "fst (F sb)")
    case True
    note g = writesD [OF G f(1)]
    show ?thesis
    proof (cases "length full < max' sb")
      case lf: True
      with True f(2) have "length (full @ T) < max' (snd (F sb))" by (simp add: f(3))
      from g(2) [OF this] show ?thesis
        using True g(1) g(3) f(3) by (simp add: case_prod_beta)
    next
      case False
      then show ?thesis
        using True g(1) g(3) f(3) by (simp add: case_prod_beta)
    qed
  next
    case False
    show ?thesis
    proof (cases "length (full @ T) < max' sb")
      case True
      then have "length full < max' sb" by simp
      from f(2) [OF this] True False show ?thesis by simp
    next
      case n: False
      then have n': "\<not> length (full @ T) < max' (snd (F sb))" by (simp add: f(3))
      have "sb_holds (snd (F sb)) ((full @ T) @ U)"
        by (rule sb_holds_mono [OF f(1) n'])
      then show ?thesis
        using False n f(3) by (simp add: case_prod_beta)
    qed
  qed
qed

text \<open>Two formatters one after the other, whatever the first reported.\<close>

lemma writes_seq:
  assumes F: "writes F T"
  shows "writes (\<lambda>sb. strbuf_printf (snd (F sb)) U) (T @ U)"
  unfolding writes_def
proof (intro allI impI)
  fix sb full
  assume h: "sb_holds sb full"
  note f = writesD [OF F h]
  note g = printf_holds [OF f(1), of U]
  show "sb_holds (snd (strbuf_printf (snd (F sb)) U)) (full @ T @ U)
      \<and> (length full < max' sb \<longrightarrow>
           fst (strbuf_printf (snd (F sb)) U) = (length (full @ T @ U) < max' sb))
      \<and> max' (snd (strbuf_printf (snd (F sb)) U)) = max' sb"
    using g f(3) by simp
qed

lemma writes_print_loop: "writes (\<lambda>sb. print_loop sb ws) (concat ws)"
proof (induction ws)
  case Nil
  show ?case using writes_nothing by simp
next
  case (Cons w ws)
  have "writes (\<lambda>sb. case strbuf_printf sb w of (ok1, sb1) \<Rightarrow>
                 if ok1 then print_loop sb1 ws else (False, sb1)) (w @ concat ws)"
    by (rule writes_then [OF writes_printf Cons.IH])
  then show ?case by simp
qed

lemma char_of_byte_5c: "char_of_byte 0x5c = CHR 0x5c"
  by code_simp

lemma char_of_byte_22: "char_of_byte 0x22 = CHR 0x22"
  by code_simp

lemma isprint_5c: "isprint 0x5c" and isprint_22: "isprint 0x22" and not_isprint_0: "\<not> isprint 0"
  by (simp_all add: isprint_def)

lemma writes_hex_string_char: "writes (\<lambda>sb. hex_string_char sb c) (escape_byte c)"
proof -
  consider "c = 0x5c" | "c = 0x22" | "c = 0" | "c \<noteq> 0x5c" "c \<noteq> 0x22" "c \<noteq> 0" "isprint c"
    | "c \<noteq> 0x5c" "c \<noteq> 0x22" "c \<noteq> 0" "\<not> isprint c"
    by blast
  then show ?thesis
  proof cases
    case 1
    have "writes (\<lambda>sb. strbuf_printf (snd (strbuf_printf sb [CHR 0x5c])) [CHR 0x5c])
            ([CHR 0x5c] @ [CHR 0x5c])"
      by (rule writes_seq [OF writes_printf])
    then show ?thesis
      unfolding 1 by (simp add: hex_string_char_def escape_byte_def isprint_5c char_of_byte_5c
          case_prod_beta)
  next
    case 2
    have "writes (\<lambda>sb. strbuf_printf (snd (strbuf_printf sb [CHR 0x5c])) [CHR 0x22])
            ([CHR 0x5c] @ [CHR 0x22])"
      by (rule writes_seq [OF writes_printf])
    then show ?thesis
      unfolding 2 by (simp add: hex_string_char_def escape_byte_def isprint_22 char_of_byte_22
          case_prod_beta)
  next
    case 3
    show ?thesis
      unfolding 3 using writes_printf [of "[CHR 0x5c, CHR ''0'']"]
      by (simp add: hex_string_char_def escape_byte_def)
  next
    case 4
    then show ?thesis
      using writes_printf [of "[char_of_byte c]"]
      by (simp add: hex_string_char_def escape_byte_def)
  next
    case 5
    then show ?thesis
      using writes_printf [of "[CHR 0x5c, CHR ''x''] @ hex2 c"]
      by (simp add: hex_string_char_def escape_byte_def)
  qed
qed

lemma writes_hex_string_loop:
  "writes (\<lambda>sb. hex_string_loop sb bs) (concat (map escape_byte bs))"
proof (induction bs)
  case Nil
  show ?case using writes_nothing by simp
next
  case (Cons c cs)
  have "writes (\<lambda>sb. case hex_string_char sb c of (ok1, sb1) \<Rightarrow>
                 if ok1 then hex_string_loop sb1 cs else (False, sb1))
          (escape_byte c @ concat (map escape_byte cs))"
    by (rule writes_then [OF writes_hex_string_char Cons.IH])
  then show ?case by simp
qed

lemma writes_hex_string: "writes (\<lambda>sb. print_property_hex_string sb bs) (quoted bs)"
proof -
  have a: "writes (\<lambda>sb. case strbuf_printf sb [CHR 0x22] of (ok0, sb0) \<Rightarrow>
                 if ok0 then hex_string_loop sb0 bs else (False, sb0))
            ([CHR 0x22] @ concat (map escape_byte bs))"
    by (rule writes_then [OF writes_printf writes_hex_string_loop])
  have "writes (\<lambda>sb. case (case strbuf_printf sb [CHR 0x22] of (ok0, sb0) \<Rightarrow>
                 if ok0 then hex_string_loop sb0 bs else (False, sb0)) of
                   (ok1, sb1) \<Rightarrow> if ok1 then strbuf_printf sb1 [CHR 0x22] else (False, sb1))
            (([CHR 0x22] @ concat (map escape_byte bs)) @ [CHR 0x22])"
    by (rule writes_then [OF a writes_printf])
  then show ?thesis
    by (simp add: print_property_hex_string_def quoted_def case_prod_beta)
qed


lemma writes_print_property: "\<exists>T. writes (\<lambda>sb. print_property sb name bs) T"
proof (cases "compute_display_type name bs")
  case DISP_HEX_DUMP
  then show ?thesis
    using writes_print_loop by (auto simp add: print_property_def print_property_hex_dump_def)
next
  case DISP_HEX_INT
  have "writes (\<lambda>sb. print_property_hex_int sb bs)
          (if read_uint bs = 0 then ''0'' else ''0x'' @ hex_of_nat (unat (read_uint bs)))"
    by (cases "read_uint bs = 0") (simp_all add: print_property_hex_int_def writes_printf Let_def)
  with DISP_HEX_INT show ?thesis
    by (auto simp add: print_property_def)
next
  case DISP_DEC_INT
  then show ?thesis
    using writes_printf by (auto simp add: print_property_def print_property_dec_int_def)
next
  case DISP_STRING
  then show ?thesis
    using writes_hex_string by (auto simp add: print_property_def print_property_string_def)
next
  case DISP_HEX_STRING
  then show ?thesis
    using writes_hex_string by (auto simp add: print_property_def)
next
  case DISP_FUNCTION_PROP
  then show ?thesis
    using writes_hex_string by (auto simp add: print_property_def print_property_function_def)
next
  case DISP_PHYS_RANGES
  then show ?thesis
    using writes_print_loop
    by (auto simp add: print_property_def print_property_phys_ranges_def Let_def)
next
  case DISP_SEGMENT_RANGES
  then show ?thesis
    using writes_print_loop
    by (auto simp add: print_property_def print_property_segment_ranges_def Let_def)
qed

lemma size_max_bounds: "1 \<le> SIZE_MAX" "SIZE_MAX < 2 ^ 64"
  by (simp_all add: SIZE_MAX_def)

lemma max_alloc: "max' (strbuf_alloc mx) = mx"
  by (simp add: strbuf_alloc_def Let_def)

lemma writes_from_alloc:
  assumes w: "writes F T" and mx: "1 \<le> mx" "mx < 2 ^ 64"
  shows "prefix (str (snd (F (strbuf_alloc mx)))) T"
    and "fst (F (strbuf_alloc mx)) = (length T < mx)"
    and "length T < mx \<Longrightarrow> str (snd (F (strbuf_alloc mx))) = T"
    and "\<not> length T < mx \<Longrightarrow>
           strbuf_printf (snd (F (strbuf_alloc mx))) u =
             (False, (snd (F (strbuf_alloc mx)))\<lparr>pos := pos (snd (F (strbuf_alloc mx))) + length u\<rparr>)"
proof -
  have h: "sb_holds (strbuf_alloc mx) []" by (rule sb_holds_alloc [OF mx])
  note f = writesD [OF w h]
  from f(1) have h': "sb_holds (snd (F (strbuf_alloc mx))) T" by simp
  have m: "max' (snd (F (strbuf_alloc mx))) = mx" using f(3) by (simp add: max_alloc)
  show "prefix (str (snd (F (strbuf_alloc mx)))) T"
    by (rule sb_holds_prefix [OF h'])
  show "fst (F (strbuf_alloc mx)) = (length T < mx)"
    using f(2) mx by (simp add: max_alloc)
  show "length T < mx \<Longrightarrow> str (snd (F (strbuf_alloc mx))) = T"
    using sb_holds_complete [OF h'] m by simp
  show "\<not> length T < mx \<Longrightarrow>
           strbuf_printf (snd (F (strbuf_alloc mx))) u =
             (False, (snd (F (strbuf_alloc mx)))\<lparr>pos := pos (snd (F (strbuf_alloc mx))) + length u\<rparr>)"
    using strbuf_printf_full [OF h'] m by simp
qed

text \<open>
  Claim C9. A value is formatted into a fresh sink with the maximum \<open>mx\<close>, and into a fresh
  unbounded sink (which renders it completely). Whatever the value, its name and \<open>mx\<close>:
  the bounded sink ends with a prefix of the full text; the formatter reports success
  exactly if the full text is shorter than \<open>mx\<close> (so it reports a truncation whenever
  \<open>mx\<close> is smaller than the full text); and after a truncation every further
  \<open>strbuf_printf\<close> fails and changes nothing but \<open>pos\<close>.
\<close>

theorem print_property_truncation:
  assumes mx: "1 \<le> mx" "mx \<le> SIZE_MAX"
    and unbounded: "fst (print_property (strbuf_alloc SIZE_MAX) name bs)"
  shows "prefix (str (snd (print_property (strbuf_alloc mx) name bs)))
           (str (snd (print_property (strbuf_alloc SIZE_MAX) name bs)))
    \<and> fst (print_property (strbuf_alloc mx) name bs)
        = (length (str (snd (print_property (strbuf_alloc SIZE_MAX) name bs))) < mx)
    \<and> (\<not> fst (print_property (strbuf_alloc mx) name bs) \<longrightarrow>
         (\<forall>u. strbuf_printf (snd (print_property (strbuf_alloc mx) name bs)) u =
            (False, (snd (print_property (strbuf_alloc mx) name bs))
               \<lparr>pos := pos (snd (print_property (strbuf_alloc mx) name bs)) + length u\<rparr>)))"
proof -
  obtain T where w: "writes (\<lambda>sb. print_property sb name bs) T"
    using writes_print_property by blast
  from mx(2) have mx2: "mx < 2 ^ 64" using size_max_bounds(2) by (rule le_less_trans)
  note U = writes_from_alloc [OF w size_max_bounds]
  note M = writes_from_alloc [OF w mx(1) mx2]
  from unbounded U(2) have "length T < SIZE_MAX" by simp
  then have T: "str (snd (print_property (strbuf_alloc SIZE_MAX) name bs)) = T"
    by (rule U(3))
  show ?thesis
    unfolding T using M(1) M(2) M(4) by simp
qed

text \<open>
  The quoted kinds. In the version stored with the header, the three formatters send
  the rendering of the specification: \<open>print_property_hex_string\<close> and
  \<open>print_property_function\<close> that of the whole value, \<open>print_property_string\<close> that of
  the part before the first NUL.
\<close>

lemma cstring_take: "take (length (cstring bs)) bs = cstring bs"
  unfolding cstring_def by (induction bs) auto

lemma hex_string_renders:
  assumes mx: "1 \<le> mx" "mx \<le> SIZE_MAX"
  shows "length (quoted bs) < mx \<Longrightarrow>
           print_property_hex_string (strbuf_alloc mx) bs
             = (True, snd (print_property_hex_string (strbuf_alloc mx) bs))
           \<and> str (snd (print_property_hex_string (strbuf_alloc mx) bs)) = quoted bs"
    and "length (quoted bs) < mx \<Longrightarrow>
           str (snd (print_property_function (strbuf_alloc mx) bs)) = quoted bs"
    and "length (quoted (cstring bs)) < mx \<Longrightarrow>
           str (snd (print_property_string (strbuf_alloc mx) bs)) = quoted (cstring bs)"
proof -
  from mx(2) have mx2: "mx < 2 ^ 64" using size_max_bounds(2) by (rule le_less_trans)
  note A = writes_from_alloc [OF writes_hex_string mx(1) mx2]
  show "length (quoted bs) < mx \<Longrightarrow>
           print_property_hex_string (strbuf_alloc mx) bs
             = (True, snd (print_property_hex_string (strbuf_alloc mx) bs))
           \<and> str (snd (print_property_hex_string (strbuf_alloc mx) bs)) = quoted bs"
    using A(2) [of bs] A(3) [of bs] by (simp add: prod_eq_iff)
  show "length (quoted bs) < mx \<Longrightarrow>
           str (snd (print_property_function (strbuf_alloc mx) bs)) = quoted bs"
    using A(3) [of bs] by (simp add: print_property_function_def)
  show "length (quoted (cstring bs)) < mx \<Longrightarrow>
           str (snd (print_property_string (strbuf_alloc mx) bs)) = quoted (cstring bs)"
    using A(3) [of "cstring bs"] by (simp add: print_property_string_def cstring_take)
qed

lemma writes_hex_string_char_001: "writes (\<lambda>sb. hex_string_char_001 sb c) (escape_byte_001 c)"
proof -
  have n: "\<not> isprint c \<Longrightarrow> c \<noteq> 0x22"
    using isprint_22 by auto
  show ?thesis
    unfolding hex_string_char_001_def escape_byte_001_def
    using writes_printf n by (cases "isprint c"; cases "c = 0") simp_all
qed

lemma writes_hex_string_loop_001:
  "writes (\<lambda>sb. hex_string_loop_001 sb bs) (concat (map escape_byte_001 bs))"
proof (induction bs)
  case Nil
  show ?case using writes_nothing by simp
next
  case (Cons c cs)
  have "writes (\<lambda>sb. case hex_string_char_001 sb c of (ok1, sb1) \<Rightarrow>
                 if ok1 then hex_string_loop_001 sb1 cs else (False, sb1))
          (escape_byte_001 c @ concat (map escape_byte_001 cs))"
    by (rule writes_then [OF writes_hex_string_char_001 Cons.IH])
  then show ?case by simp
qed

lemma writes_hex_string_001: "writes (\<lambda>sb. print_property_hex_string_001 sb bs) (quoted_001 bs)"
proof -
  have a: "writes (\<lambda>sb. case strbuf_printf sb [CHR 0x22] of (ok0, sb0) \<Rightarrow>
                 if ok0 then hex_string_loop_001 sb0 bs else (False, sb0))
            ([CHR 0x22] @ concat (map escape_byte_001 bs))"
    by (rule writes_then [OF writes_printf writes_hex_string_loop_001])
  have "writes (\<lambda>sb. case (case strbuf_printf sb [CHR 0x22] of (ok0, sb0) \<Rightarrow>
                 if ok0 then hex_string_loop_001 sb0 bs else (False, sb0)) of
                   (ok1, sb1) \<Rightarrow> if ok1 then strbuf_printf sb1 [CHR 0x22] else (False, sb1))
            (([CHR 0x22] @ concat (map escape_byte_001 bs)) @ [CHR 0x22])"
    by (rule writes_then [OF a writes_printf])
  then show ?thesis
    by (simp add: print_property_hex_string_001_def quoted_001_def case_prod_beta)
qed

lemma hex_string_001_renders:
  assumes "1 \<le> mx" "mx \<le> SIZE_MAX" "length (quoted_001 bs) < mx"
  shows "str (snd (print_property_hex_string_001 (strbuf_alloc mx) bs)) = quoted_001 bs"
proof -
  from assms(2) have mx2: "mx < 2 ^ 64" using size_max_bounds(2) by (rule le_less_trans)
  show ?thesis
    by (rule writes_from_alloc(3) [OF writes_hex_string_001 assms(1) mx2 assms(3)])
qed

lemma quoted_001_quote: "quoted_001 [0x22] = [CHR 0x22, CHR 0x22, CHR 0x22]"
  by (simp add: quoted_001_def escape_byte_001_def isprint_22 char_of_byte_22)

lemma quoted_quote: "quoted [0x22] = [CHR 0x22, CHR 0x5c, CHR 0x22, CHR 0x22]"
  by (simp add: quoted_def escape_byte_def)

text \<open>
  Claim C8. The version of part_001 tests \<open>isprint\<close> first, so its branch for the double
  quote is never taken and it has none for the backslash: the one-byte value \<open>"\<close> is
  sent as three double quotes, where the specification (and the version stored with the
  header, by \<open>hex_string_renders\<close>) has a backslash before the second.
\<close>

theorem hex_string_001_leaves_quote_unescaped:
  "str (snd (print_property_hex_string_001 (strbuf_alloc 64) [0x22]))
     = [CHR 0x22, CHR 0x22, CHR 0x22]
   \<and> quoted [0x22] = [CHR 0x22, CHR 0x5c, CHR 0x22, CHR 0x22]"
proof -
  have "(1::nat) \<le> 64" "(64::nat) \<le> SIZE_MAX" "length (quoted_001 [0x22]) < 64"
    by (simp_all add: SIZE_MAX_def quoted_001_quote)
  from hex_string_001_renders [OF this] show ?thesis
    by (simp add: quoted_001_quote quoted_quote)
qed

lemma hex_int_renders: 
  "compute_display_type name [0x41] = DISP_HEX_INT"
  "print_property sb name [0x41] = strbuf_printf sb ''0x41''"
proof -
  show d: "compute_display_type name [0x41] = DISP_HEX_INT"
    by (simp add: compute_display_type_def)
  have "read_uint [0x41] = 0x41" by (simp add: read_uint_def)
  moreover have "hex_of_nat 65 = ''41''" by (simp add: hex_of_nat.simps hex_digit_def)
  ultimately show "print_property sb name [0x41] = strbuf_printf sb ''0x41''"
    by (simp add: print_property_def d print_property_hex_int_def)
qed

theorem print_property_truncation_witness:
  "prefix (str (snd (print_property (strbuf_alloc 3) [] [0x41]))) ''0x41''
   \<and> \<not> fst (print_property (strbuf_alloc 3) [] [0x41])"
proof -
  have b: "(1::nat) \<le> SIZE_MAX" "SIZE_MAX < 2 ^ 64" "length ''0x41'' < SIZE_MAX"
    by (simp_all add: SIZE_MAX_def)
  have "fst (strbuf_printf (strbuf_alloc SIZE_MAX) ''0x41'') = (length ''0x41'' < SIZE_MAX)"
    by (rule writes_from_alloc(2) [OF writes_printf b(1) b(2)])
  with b(3) have "fst (strbuf_printf (strbuf_alloc SIZE_MAX) ''0x41'')"
    by blast
  then have u: "fst (print_property (strbuf_alloc SIZE_MAX) [] [0x41])"
    by (simp only: hex_int_renders)
  have "str (snd (strbuf_printf (strbuf_alloc SIZE_MAX) ''0x41'')) = ''0x41''"
    by (rule writes_from_alloc(3) [OF writes_printf b(1) b(2) b(3)])
  then have l: "str (snd (print_property (strbuf_alloc SIZE_MAX) [] [0x41])) = ''0x41''"
    by (simp only: hex_int_renders)
  have m: "(1::nat) \<le> 3" "(3::nat) \<le> SIZE_MAX" by (simp_all add: SIZE_MAX_def)
  show ?thesis
    using print_property_truncation [OF m u] by (simp add: l)
qed


end
